theory Spec2Isabelle
  imports Main "HOL-Library.Sublist"
begin

section \<open>The environment: file system, exceptions, effects\<close>

text \<open>
  The program (\<^verbatim>\<open>src/code/main.py\<close>) reads the file system through four library calls:
  \<^verbatim>\<open>os.walk\<close>, \<^verbatim>\<open>os.path.exists\<close>, \<^verbatim>\<open>os.path.join\<close> and \<^verbatim>\<open>open(...).read()\<close>.
  The file system is an input of the model: it is the same during the whole run.

  A string of the model is the UTF-8 byte sequence of a Python \<^verbatim>\<open>str\<close>. A byte of a file
  name that \<^verbatim>\<open>os.fsdecode\<close> cannot decode is kept by Python as a lone surrogate; in the model
  that byte stays where it is. So a Python \<^verbatim>\<open>str\<close> holds a lone surrogate exactly when its
  bytes are not well-formed UTF-8.
\<close>

text \<open>
  An exception object of a class that derives from \<^verbatim>\<open>Exception\<close>: its class name and
  what \<^verbatim>\<open>str(e)\<close> gives. Opening, reading and decoding a file raise only such exceptions
  (\<^verbatim>\<open>OSError\<close> and its subclasses, \<^verbatim>\<open>UnicodeDecodeError\<close>, \<^verbatim>\<open>ValueError\<close>);
  asynchronous interrupts are not modelled.
\<close>

datatype exn = Exn string string

fun exn_str :: "exn \<Rightarrow> string" where
  "exn_str (Exn cls msg) = msg"

text \<open>
  What sits at a path, as \<^verbatim>\<open>os.walk\<close> sees it:
  \<^item> \<open>File\<close>: anything that is not a directory (\<^verbatim>\<open>entry.is_dir()\<close> is false);
  \<^item> \<open>Dir es\<close>: a directory that \<^verbatim>\<open>os.scandir\<close> can list, with its entries in the
    order \<^verbatim>\<open>scandir\<close> reports them;
  \<^item> \<open>Locked\<close>: a directory whose listing raises \<^verbatim>\<open>OSError\<close> (permission denied);
  \<^item> \<open>Link n\<close>: a symbolic link that resolves to \<open>n\<close>.
\<close>

datatype node =
    File
  | Dir "(string \<times> node) list"
  | Locked
  | Link node

text \<open>
  The world of one run: what is found at the path of a root (\<open>None\<close>: \<^verbatim>\<open>os.stat\<close> fails,
  the path does not exist), what \<^verbatim>\<open>open(p, 'r', encoding='utf-8').read()\<close> gives for a path
  (the decoded text, or the exception raised), and whether the output file can be created
  (\<open>Some e\<close>: \<^verbatim>\<open>open(output_file_path, "w")\<close> raises \<open>e\<close>).
\<close>

record world =
  node_at :: "string \<Rightarrow> node option"
  open_read :: "string \<Rightarrow> exn + string"
  output_open_error :: "exn option"

text \<open>
  The effects of a run, in the order they happen: \<open>Write s\<close> is \<^verbatim>\<open>output_file.write(s)\<close>,
  \<open>Open p\<close> is the \<^verbatim>\<open>open\<close> of \<open>p\<close> for reading, \<open>Print s\<close> is \<^verbatim>\<open>print(s)\<close>.
  The output file is opened with mode \<^verbatim>\<open>"w"\<close>, so its text after the run is the
  concatenation of everything written.
\<close>

datatype event = Write string | Open string | Print string

type_synonym trace = "event list"

fun written :: "event \<Rightarrow> string" where
  "written (Write s) = s"
| "written (Open p) = []"
| "written (Print s) = []"

definition file_text :: "trace \<Rightarrow> string" where
  "file_text tr = concat (map written tr)"

definition nl :: string where
  "nl = [CHR 0x0A]"

section \<open>Library functions\<close>

text \<open>\<^verbatim>\<open>os.path.join(a, b)\<close> of \<^verbatim>\<open>posixpath\<close>.\<close>

fun starts_with_sep :: "string \<Rightarrow> bool" where
  "starts_with_sep [] = False"
| "starts_with_sep (c # cs) = (c = CHR ''/'')"

definition ends_with_sep :: "string \<Rightarrow> bool" where
  "ends_with_sep a = (a \<noteq> [] \<and> last a = CHR ''/'')"

definition os_path_join :: "string \<Rightarrow> string \<Rightarrow> string" where
  "os_path_join a b =
     (if starts_with_sep b then b
      else if a = [] \<or> ends_with_sep a then a @ b
      else a @ ''/'' @ b)"

text \<open>\<^verbatim>\<open>os.path.exists(p)\<close>: whether \<^verbatim>\<open>os.stat(p)\<close> succeeds.\<close>

definition os_path_exists :: "world \<Rightarrow> string \<Rightarrow> bool" where
  "os_path_exists w p = (node_at w p \<noteq> None)"

text \<open>\<^verbatim>\<open>entry.is_dir()\<close> follows symbolic links; \<^verbatim>\<open>os.path.islink\<close> does not.\<close>

fun is_dir :: "node \<Rightarrow> bool" where
  "is_dir File = False"
| "is_dir (Dir es) = True"
| "is_dir Locked = True"
| "is_dir (Link n) = is_dir n"

fun is_link :: "node \<Rightarrow> bool" where
  "is_link (Link n) = True"
| "is_link n = False"

definition dirs_of :: "(string \<times> node) list \<Rightarrow> string list" where
  "dirs_of es = map fst (filter (\<lambda>e. is_dir (snd e)) es)"

definition nondirs_of :: "(string \<times> node) list \<Rightarrow> string list" where
  "nondirs_of es = map fst (filter (\<lambda>e. \<not> is_dir (snd e)) es)"

text \<open>
  \<^verbatim>\<open>os.walk(top)\<close> with its defaults (\<^verbatim>\<open>topdown=True, onerror=None, followlinks=False\<close>):
  the triples \<^verbatim>\<open>(root, dirs, files)\<close> in the order they are yielded. An error of
  \<^verbatim>\<open>scandir(top)\<close> is ignored and nothing is yielded for \<open>top\<close>; \<^verbatim>\<open>scandir\<close> follows a
  symbolic link at \<open>top\<close>; an entry that is a directory is walked unless it is a symbolic link.
\<close>

fun walk :: "string \<Rightarrow> node \<Rightarrow> (string \<times> string list \<times> string list) list"
  and walk_subdirs :: "string \<Rightarrow> (string \<times> node) list \<Rightarrow> (string \<times> string list \<times> string list) list"
where
  "walk topdir File = []"
| "walk topdir Locked = []"
| "walk topdir (Link n) = walk topdir n"
| "walk topdir (Dir es) = (topdir, dirs_of es, nondirs_of es) # walk_subdirs topdir es"
| "walk_subdirs topdir [] = []"
| "walk_subdirs topdir ((name, c) # es) =
     (if is_dir c \<and> \<not> is_link c then walk (os_path_join topdir name) c else [])
     @ walk_subdirs topdir es"

definition os_walk :: "world \<Rightarrow> string \<Rightarrow> (string \<times> string list \<times> string list) list" where
  "os_walk w topdir = (case node_at w topdir of None \<Rightarrow> [] | Some n \<Rightarrow> walk topdir n)"

section \<open>The program\<close>

text \<open>
  Well-formed UTF-8, as the codec of Python accepts it: no overlong form, no encoded surrogate,
  nothing above U+10FFFF.
\<close>

definition cont_byte :: "nat \<Rightarrow> bool" where
  "cont_byte b = (0x80 \<le> b \<and> b \<le> 0xBF)"

definition second_of_three :: "nat \<Rightarrow> nat \<Rightarrow> bool" where
  "second_of_three b b1 =
     (if b = 0xE0 then 0xA0 \<le> b1 \<and> b1 \<le> 0xBF
      else if b = 0xED then 0x80 \<le> b1 \<and> b1 \<le> 0x9F
      else cont_byte b1)"

definition second_of_four :: "nat \<Rightarrow> nat \<Rightarrow> bool" where
  "second_of_four b b1 =
     (if b = 0xF0 then 0x90 \<le> b1 \<and> b1 \<le> 0xBF
      else if b = 0xF4 then 0x80 \<le> b1 \<and> b1 \<le> 0x8F
      else cont_byte b1)"

fun utf8_bytes :: "nat list \<Rightarrow> bool" where
  "utf8_bytes [] = True"
| "utf8_bytes (b # bs) =
     (if b < 0x80 then utf8_bytes bs
      else if 0xC2 \<le> b \<and> b \<le> 0xDF then
        (case bs of
           b1 # r \<Rightarrow> cont_byte b1 \<and> utf8_bytes r
         | _ \<Rightarrow> False)
      else if 0xE0 \<le> b \<and> b \<le> 0xEF then
        (case bs of
           b1 # b2 # r \<Rightarrow> second_of_three b b1 \<and> cont_byte b2 \<and> utf8_bytes r
         | _ \<Rightarrow> False)
      else if 0xF0 \<le> b \<and> b \<le> 0xF4 then
        (case bs of
           b1 # b2 # b3 # r \<Rightarrow>
             second_of_four b b1 \<and> cont_byte b2 \<and> cont_byte b3 \<and> utf8_bytes r
         | _ \<Rightarrow> False)
      else False)"

definition utf8_valid :: "string \<Rightarrow> bool" where
  "utf8_valid s = utf8_bytes (map of_char s)"

text \<open>
  \<^verbatim>\<open>output_file.write(s)\<close>: the file is opened with \<^verbatim>\<open>encoding='utf-8'\<close> and strict error
  handling, so the write raises \<^verbatim>\<open>UnicodeEncodeError\<close> when \<open>s\<close> holds a lone surrogate, and
  nothing of \<open>s\<close> is written. The position that the message of the exception names is left
  out. Errors of the device (a full disk) are not modelled.
\<close>

definition encode_error :: exn where
  "encode_error = Exn ''UnicodeEncodeError'' ''surrogates not allowed''"

definition output_file_write :: "string \<Rightarrow> trace \<Rightarrow> exn + trace" where
  "output_file_write s tr = (if utf8_valid s then Inr (tr @ [Write s]) else Inl encode_error)"

text \<open>
  \<^verbatim>\<open>read_file_content(file_path)\<close>: the \<^verbatim>\<open>try\<close> body opens and reads; the handler
  \<^verbatim>\<open>except Exception as e\<close> returns the message. The result is a sum so that raising would
  be the value \<open>Inl\<close>.
\<close>

definition read_file_content :: "world \<Rightarrow> string \<Rightarrow> trace \<Rightarrow> exn + (string \<times> trace)" where
  "read_file_content w file_path tr =
     (case open_read w file_path of
        Inr text \<Rightarrow> Inr (text, tr @ [Open file_path])
      | Inl e \<Rightarrow> Inr (''Error reading file: '' @ exn_str e, tr @ [Open file_path]))"

text \<open>
  The loop \<^verbatim>\<open>for file in files\<close> of \<^verbatim>\<open>list_files_recursive\<close>. An exception of a
  statement ends the loop and is the result.
\<close>

fun for_file_in_files :: "world \<Rightarrow> string \<Rightarrow> string list \<Rightarrow> trace \<Rightarrow> exn + trace" where
  "for_file_in_files w root [] tr = Inr tr"
| "for_file_in_files w root (file # files) tr =
     (let file_path = os_path_join root file
      in case output_file_write (nl @ ''--- FILE: '' @ file_path @ '' ---'' @ nl) tr of
           Inl e \<Rightarrow> Inl e
         | Inr tr1 \<Rightarrow>
             (case read_file_content w file_path tr1 of
                Inl e \<Rightarrow> Inl e
              | Inr (content, tr2) \<Rightarrow>
                  (case output_file_write content tr2 of
                     Inl e \<Rightarrow> Inl e
                   | Inr tr3 \<Rightarrow>
                       (case output_file_write (nl @ nl @ replicate 80 CHR ''='' @ nl @ nl) tr3 of
                          Inl e \<Rightarrow> Inl e
                        | Inr tr4 \<Rightarrow> for_file_in_files w root files tr4))))"

text \<open>The loop \<^verbatim>\<open>for root, dirs, files in os.walk(directory)\<close>.\<close>

fun for_root_in_walk :: "world \<Rightarrow> (string \<times> string list \<times> string list) list \<Rightarrow> trace \<Rightarrow> exn + trace" where
  "for_root_in_walk w [] tr = Inr tr"
| "for_root_in_walk w ((root, dirs, files) # rest) tr =
     (case output_file_write (''Directory: '' @ root @ nl) tr of
        Inl e \<Rightarrow> Inl e
      | Inr tr1 \<Rightarrow>
          (case for_file_in_files w root files tr1 of
             Inl e \<Rightarrow> Inl e
           | Inr tr2 \<Rightarrow> for_root_in_walk w rest tr2))"

definition list_files_recursive :: "world \<Rightarrow> string \<Rightarrow> trace \<Rightarrow> exn + trace" where
  "list_files_recursive w directory tr = for_root_in_walk w (os_walk w directory) tr"

definition directories :: "string list" where
  "directories =
     [''/home/ayes/water-quality-monitor/frontend/components'',
      ''/home/ayes/water-quality-monitor/frontend/pages'']"

definition output_file_path :: string where
  "output_file_path = ''files_content.txt''"

text \<open>The loop \<^verbatim>\<open>for directory in directories\<close> of \<^verbatim>\<open>main\<close>.\<close>

fun for_directory_in :: "world \<Rightarrow> string list \<Rightarrow> trace \<Rightarrow> exn + trace" where
  "for_directory_in w [] tr = Inr tr"
| "for_directory_in w (directory # rest) tr =
     (case output_file_write (''SCANNING: '' @ directory @ nl) tr of
        Inl e \<Rightarrow> Inl e
      | Inr tr1 \<Rightarrow>
          (case output_file_write (replicate 80 CHR ''='' @ nl @ nl) tr1 of
             Inl e \<Rightarrow> Inl e
           | Inr tr2 \<Rightarrow>
               (case (if os_path_exists w directory
                      then list_files_recursive w directory tr2
                      else output_file_write (''Directory not found: '' @ directory @ nl @ nl) tr2) of
                  Inl e \<Rightarrow> Inl e
                | Inr tr3 \<Rightarrow> for_directory_in w rest tr3)))"

text \<open>
  \<^verbatim>\<open>main()\<close>: the result is the exception that ends the run, or the effects of the run
  that completes.
\<close>

definition main :: "world \<Rightarrow> exn + trace" where
  "main w =
     (case output_open_error w of
        Some e \<Rightarrow> Inl e
      | None \<Rightarrow>
          (case output_file_write (''Files Content'' @ nl) [] of
             Inl e \<Rightarrow> Inl e
           | Inr tr1 \<Rightarrow>
               (case output_file_write (''============='' @ nl @ nl) tr1 of
                  Inl e \<Rightarrow> Inl e
                | Inr tr2 \<Rightarrow>
                    (case for_directory_in w directories tr2 of
                       Inl e \<Rightarrow> Inl e
                     | Inr tr3 \<Rightarrow>
                         (case output_file_write (''End of content listing'' @ nl) tr3 of
                            Inl e \<Rightarrow> Inl e
                          | Inr tr4 \<Rightarrow>
                              Inr (tr4 @ [Print (''Files content has been saved to ''
                                                @ output_file_path)]))))))"

section \<open>Functions of the specification\<close>

text \<open>
  What the loops write, as lists of effects: the string the File Reader returns for a path, the
  block of one file entry, the block of one visited directory, the section of one root.
\<close>

definition reader_string :: "world \<Rightarrow> string \<Rightarrow> string" where
  "reader_string w p =
     (case open_read w p of Inr text \<Rightarrow> text | Inl e \<Rightarrow> ''Error reading file: '' @ exn_str e)"

definition file_block :: "world \<Rightarrow> string \<Rightarrow> string \<Rightarrow> event list" where
  "file_block w root file =
     [Write (nl @ ''--- FILE: '' @ os_path_join root file @ '' ---'' @ nl),
      Open (os_path_join root file),
      Write (reader_string w (os_path_join root file)),
      Write (nl @ nl @ replicate 80 CHR ''='' @ nl @ nl)]"

fun dir_block :: "world \<Rightarrow> string \<times> string list \<times> string list \<Rightarrow> event list" where
  "dir_block w (root, dirs, files) =
     Write (''Directory: '' @ root @ nl) # concat (map (file_block w root) files)"

definition root_section :: "world \<Rightarrow> string \<Rightarrow> event list" where
  "root_section w directory =
     [Write (''SCANNING: '' @ directory @ nl), Write (replicate 80 CHR ''='' @ nl @ nl)] @
     (if os_path_exists w directory then concat (map (dir_block w) (os_walk w directory))
      else [Write (''Directory not found: '' @ directory @ nl @ nl)])"

text \<open>
  When the loops complete: every string they write can be encoded.
\<close>

definition file_ok :: "world \<Rightarrow> string \<Rightarrow> string \<Rightarrow> bool" where
  "file_ok w root file =
     (utf8_valid (nl @ ''--- FILE: '' @ os_path_join root file @ '' ---'' @ nl)
      \<and> utf8_valid (reader_string w (os_path_join root file)))"

fun dir_ok :: "world \<Rightarrow> string \<times> string list \<times> string list \<Rightarrow> bool" where
  "dir_ok w (root, dirs, files) =
     (utf8_valid (''Directory: '' @ root @ nl) \<and> list_all (file_ok w root) files)"

definition root_ok :: "world \<Rightarrow> string \<Rightarrow> bool" where
  "root_ok w directory =
     (utf8_valid (''SCANNING: '' @ directory @ nl)
      \<and> (if os_path_exists w directory then list_all (dir_ok w) (os_walk w directory)
         else utf8_valid (''Directory not found: '' @ directory @ nl @ nl)))"

text \<open>
  The paths the walker passes to the File Reader, in order, for a list of yielded triples.
\<close>

definition opened_paths :: "(string \<times> string list \<times> string list) list \<Rightarrow> string list" where
  "opened_paths ts = concat (map (\<lambda>(root, dirs, files). map (os_path_join root) files) ts)"

text \<open>
  What \<^verbatim>\<open>scandir\<close> guarantees of a listing: an entry name is not empty and holds no
  \<^verbatim>\<open>/\<close>, and no name occurs twice in one directory.
\<close>

definition valid_name :: "string \<Rightarrow> bool" where
  "valid_name name = (name \<noteq> [] \<and> CHR ''/'' \<notin> set name)"

fun wf_node :: "node \<Rightarrow> bool"
  and wf_entries :: "(string \<times> node) list \<Rightarrow> bool"
where
  "wf_node File = True"
| "wf_node Locked = True"
| "wf_node (Link n) = wf_node n"
| "wf_node (Dir es) = (distinct (map fst es) \<and> wf_entries es)"
| "wf_entries [] = True"
| "wf_entries ((name, c) # es) = (valid_name name \<and> wf_node c \<and> wf_entries es)"


text \<open>
  What \<^verbatim>\<open>os.path.join\<close> puts before the name of an entry; a path is plain when it is not
  empty and does not end with the separator.
\<close>

definition dir_prefix :: "string \<Rightarrow> string" where
  "dir_prefix a = (if a = [] \<or> ends_with_sep a then a else a @ ''/'')"

definition normal_path :: "string \<Rightarrow> bool" where
  "normal_path a = (a \<noteq> [] \<and> \<not> ends_with_sep a)"

text \<open>
  The lines of a text: the pieces between line feeds, as \<^verbatim>\<open>str.split\<close> at the line feed
  gives them.
\<close>

fun text_lines :: "string \<Rightarrow> string list" where
  "text_lines [] = [Nil]"
| "text_lines (c # cs) =
     (if c = CHR 0x0A then [] # text_lines cs
      else (case text_lines cs of l # ls \<Rightarrow> (c # l) # ls | [] \<Rightarrow> [c # Nil]))"





section \<open>Example worlds\<close>

text \<open>
  The first configured root.
\<close>

definition components :: string where
  "components = ''/home/ayes/water-quality-monitor/frontend/components''"

text \<open>
  A world for evaluating the program: the two configured roots hold the given nodes, nothing
  else exists, and only \<^verbatim>\<open>a.txt\<close> in the first root can be read.
\<close>

definition demo_world :: "node option \<Rightarrow> node option \<Rightarrow> world" where
  "demo_world c_node p_node =
     \<lparr>node_at = (\<lambda>p. if p = ''/home/ayes/water-quality-monitor/frontend/components'' then c_node
                     else if p = ''/home/ayes/water-quality-monitor/frontend/pages'' then p_node
                     else None),
      open_read = (\<lambda>p. if p = ''/home/ayes/water-quality-monitor/frontend/components/a.txt''
                       then Inr ''hello''
                       else Inl (Exn ''FileNotFoundError'' ''[Errno 2] No such file or directory'')),
      output_open_error = None\<rparr>"

text \<open>
  A tree with a file, a subdirectory holding one file, and a directory that cannot be listed;
  and a world that differs from the example world only outside the configured roots.
\<close>

definition demo_tree :: node where
  "demo_tree =
     Dir [(''a.txt'', File), (''sub'', Dir [(''b.txt'', File)]), (''priv'', Locked)]"

definition other_world :: world where
  "other_world =
     (demo_world (Some demo_tree) None)
       \<lparr>node_at := (node_at (demo_world (Some demo_tree) None)) (''/tmp'' := Some File),
        open_read := (open_read (demo_world (Some demo_tree) None)) (''/etc/hostname'' := Inr ''box'')\<rparr>"




text \<open>
  A root \<^verbatim>\<open>/r\<close> without files, with a directory \<^verbatim>\<open>y\<close> and a directory whose name ends
  with a line feed and \<^verbatim>\<open>Directory: \<close>, which holds \<^verbatim>\<open>r/y\<close>.
\<close>

definition line_feed_world :: world where
  "line_feed_world =
     \<lparr>node_at = (\<lambda>p. if p = ''/r''
                     then Some (Dir [(''y'', Dir []),
                                     (''z'' @ [CHR 0x0A] @ ''Directory: '',
                                      Dir [(''r'', Dir [(''y'', Dir [])])])])
                     else None),
      open_read = (\<lambda>p. Inl (Exn ''IsADirectoryError'' ''[Errno 21] Is a directory'')),
      output_open_error = None\<rparr>"

section \<open>Encoding\<close>

lemma utf8_bytes_append: "utf8_bytes a \<Longrightarrow> utf8_bytes b \<Longrightarrow> utf8_bytes (a @ b)"
  by (induction a rule: utf8_bytes.induct) (auto split: if_splits list.splits)

lemma utf8_valid_append: "utf8_valid a \<Longrightarrow> utf8_valid b \<Longrightarrow> utf8_valid (a @ b)"
  by (simp add: utf8_valid_def utf8_bytes_append)

lemma utf8_valid_nl: "utf8_valid nl"
  by (simp add: utf8_valid_def nl_def)

lemma separator_valid: "utf8_valid (nl @ nl @ replicate 80 CHR ''='' @ nl @ nl)"
  by code_simp

lemma rule_valid: "utf8_valid (replicate 80 CHR ''='' @ nl @ nl)"
  by code_simp

lemma title_valid:
  "utf8_valid (''Files Content'' @ nl)" "utf8_valid (''============='' @ nl @ nl)"
  "utf8_valid (''End of content listing'' @ nl)"
  by code_simp+

section \<open>Closed forms of the loops\<close>

lemma read_file_content_eq:
  "read_file_content w p tr = Inr (reader_string w p, tr @ [Open p])"
  by (simp add: read_file_content_def reader_string_def split: sum.splits)

lemma for_file_in_files_eq:
  "for_file_in_files w root files tr =
     (if list_all (file_ok w root) files
      then Inr (tr @ concat (map (file_block w root) files)) else Inl encode_error)"
  by (induction files arbitrary: tr)
     (simp_all add: read_file_content_eq output_file_write_def file_block_def file_ok_def
        separator_valid Let_def)

lemma for_root_in_walk_eq:
  "for_root_in_walk w ts tr =
     (if list_all (dir_ok w) ts
      then Inr (tr @ concat (map (dir_block w) ts)) else Inl encode_error)"
proof (induction ts arbitrary: tr)
  case Nil
  then show ?case by simp
next
  case (Cons x ts)
  obtain r ds fs where x: "x = (r, ds, fs)" by (cases x)
  show ?case
    by (simp add: x Cons for_file_in_files_eq output_file_write_def)
qed

lemma list_files_recursive_eq:
  "list_files_recursive w d tr =
     (if list_all (dir_ok w) (os_walk w d)
      then Inr (tr @ concat (map (dir_block w) (os_walk w d))) else Inl encode_error)"
  by (simp add: list_files_recursive_def for_root_in_walk_eq)

lemma for_directory_in_eq:
  "for_directory_in w ds tr =
     (if list_all (root_ok w) ds
      then Inr (tr @ concat (map (root_section w) ds)) else Inl encode_error)"
  by (induction ds arbitrary: tr)
     (simp_all add: list_files_recursive_eq output_file_write_def root_section_def root_ok_def
        rule_valid)

lemma main_eq:
  "main w =
     (case output_open_error w of
        Some e \<Rightarrow> Inl e
      | None \<Rightarrow>
          (if list_all (root_ok w) directories
           then Inr ([Write (''Files Content'' @ nl), Write (''============='' @ nl @ nl)]
               @ concat (map (root_section w) directories)
               @ [Write (''End of content listing'' @ nl),
                  Print (''Files content has been saved to '' @ output_file_path)])
           else Inl encode_error))"
proof -
  have w1: "output_file_write (''Files Content'' @ nl) tr = Inr (tr @ [Write (''Files Content'' @ nl)])"
    for tr by (simp only: output_file_write_def title_valid if_True)
  have w2: "output_file_write (''============='' @ nl @ nl) tr
      = Inr (tr @ [Write (''============='' @ nl @ nl)])"
    for tr by (simp only: output_file_write_def title_valid if_True)
  have w3: "output_file_write (''End of content listing'' @ nl) tr
      = Inr (tr @ [Write (''End of content listing'' @ nl)])"
    for tr by (simp only: output_file_write_def title_valid if_True)
  show ?thesis
    unfolding main_def w1 w2 w3 for_directory_in_eq
    by (simp split: option.splits)
qed


lemma join_plain:
  "a \<noteq> [] \<Longrightarrow> \<not> ends_with_sep a \<Longrightarrow> \<not> starts_with_sep b \<Longrightarrow> os_path_join a b = a @ ''/'' @ b"
  by (simp add: os_path_join_def)

lemma walk_not_dir: "\<not> is_dir n \<Longrightarrow> walk t n = []"
  by (induction n) simp_all

section \<open>Paths of the walk\<close>

lemma valid_name_no_sep: "valid_name b \<Longrightarrow> \<not> starts_with_sep b"
  by (cases b) (auto simp: valid_name_def)

lemma join_valid: "valid_name b \<Longrightarrow> os_path_join a b = dir_prefix a @ b"
  by (simp add: os_path_join_def dir_prefix_def valid_name_no_sep)

lemma valid_name_last: "valid_name b \<Longrightarrow> last b = CHR ''/'' \<Longrightarrow> False"
proof -
  assume v: "valid_name b" and l: "last b = CHR ''/''"
  from v have "last b \<in> set b" by (simp add: valid_name_def)
  with l have "CHR ''/'' \<in> set b" by metis
  with v show False by (simp add: valid_name_def)
qed

lemma normal_join: "valid_name b \<Longrightarrow> normal_path (os_path_join a b)"
proof -
  assume v: "valid_name b"
  then have "b \<noteq> []" by (simp add: valid_name_def)
  then have "last (dir_prefix a @ b) = last b" by simp
  with v \<open>b \<noteq> []\<close> show ?thesis
    using valid_name_last [OF v] by (auto simp: join_valid normal_path_def ends_with_sep_def)
qed

lemma dir_prefix_normal: "normal_path a \<Longrightarrow> dir_prefix a = a @ ''/''"
  by (simp add: dir_prefix_def normal_path_def)




lemma child_prefix:
  "valid_name name \<Longrightarrow> dir_prefix (os_path_join t name) = dir_prefix t @ name @ ''/''"
proof -
  assume v: "valid_name name"
  have "dir_prefix (os_path_join t name) = os_path_join t name @ ''/''"
    by (rule dir_prefix_normal [OF normal_join [OF v]])
  then show ?thesis using v by (simp add: join_valid)
qed

lemma walk_shape:
  "wf_node c \<Longrightarrow> r \<in> fst ` set (walk t c)
     \<Longrightarrow> r = t \<or> (\<exists>n u. valid_name n \<and> (u = [] \<or> starts_with_sep u) \<and> r = dir_prefix t @ n @ u)"
  "wf_entries es \<Longrightarrow> r \<in> fst ` set (walk_subdirs t es)
     \<Longrightarrow> \<exists>n u. n \<in> fst ` set es \<and> valid_name n \<and> (u = [] \<or> starts_with_sep u) \<and> r = dir_prefix t @ n @ u"
proof (induction t c and t es arbitrary: r and r rule: walk_walk_subdirs.induct)
  case (1 t)
  then show ?case by simp
next
  case (2 t)
  then show ?case by simp
next
  case (3 t n)
  then show ?case by simp
next
  case (4 t es)
  from "4.prems" have we: "wf_entries es" by simp
  from "4.prems" have "r = t \<or> r \<in> fst ` set (walk_subdirs t es)" by simp
  then show ?case
  proof
    assume "r = t" then show ?thesis by simp
  next
    assume "r \<in> fst ` set (walk_subdirs t es)"
    from "4.IH" [OF we this] show ?thesis by blast
  qed
next
  case (5 t)
  then show ?case by simp
next
  case (6 t name c es)
  from "6.prems" have vn: "valid_name name" and wc: "wf_node c" and we: "wf_entries es"
    by simp_all
  show ?case
  proof (cases "r \<in> fst ` set (walk_subdirs t es)")
    case True
    from "6.IH"(2) [OF we True] obtain n u where
      "n \<in> fst ` set es" "valid_name n" "u = [] \<or> starts_with_sep u" "r = dir_prefix t @ n @ u"
      by blast
    then show ?thesis by (intro exI [of _ n] exI [of _ u]) simp
  next
    case False
    with "6.prems"(2) have d: "is_dir c \<and> \<not> is_link c"
      and r: "r \<in> fst ` set (walk (os_path_join t name) c)"
      by (auto split: if_splits)
    from "6.IH"(1) [OF d wc r]
    consider "r = os_path_join t name"
      | n u where "valid_name n" "u = [] \<or> starts_with_sep u"
          "r = dir_prefix (os_path_join t name) @ n @ u"
      by blast
    then show ?thesis
    proof cases
      case 1
      then have "r = dir_prefix t @ name @ []" using vn by (simp add: join_valid)
      then show ?thesis using vn by (intro exI [of _ name] exI [of _ "[]"]) simp
    next
      case 2
      then have "r = dir_prefix t @ name @ (''/'' @ n @ u)" by (simp add: child_prefix [OF vn])
      then show ?thesis using vn
        by (intro exI [of _ name] exI [of _ "''/'' @ n @ u"]) simp
    qed
  qed
qed





lemma wf_entries_entry: "wf_entries es \<Longrightarrow> (n, c) \<in> set es \<Longrightarrow> valid_name n"
  by (induction es) auto

lemma wf_entries_names: "wf_entries es \<Longrightarrow> n \<in> fst ` set es \<Longrightarrow> valid_name n"
proof -
  assume w: "wf_entries es" and "n \<in> fst ` set es"
  then obtain c where "(n, c) \<in> set es" by auto
  with w show ?thesis by (rule wf_entries_entry)
qed

lemma nondirs_valid: "wf_entries es \<Longrightarrow> f \<in> set (nondirs_of es) \<Longrightarrow> valid_name f"
  by (rule wf_entries_names) (auto simp: nondirs_of_def)

lemma nondirs_distinct: "distinct (map fst es) \<Longrightarrow> distinct (nondirs_of es)"
  by (simp add: nondirs_of_def distinct_map_filter)

lemma walk_listing:
  "x \<in> set (walk t c) \<Longrightarrow> wf_node c
     \<Longrightarrow> \<exists>es. wf_entries es \<and> distinct (map fst es) \<and> snd x = (dirs_of es, nondirs_of es)"
  "x \<in> set (walk_subdirs t es') \<Longrightarrow> wf_entries es'
     \<Longrightarrow> \<exists>es. wf_entries es \<and> distinct (map fst es) \<and> snd x = (dirs_of es, nondirs_of es)"
proof (induction t c and t es' arbitrary: x and x rule: walk_walk_subdirs.induct)
  case (4 t es)
  from "4.prems" have "x = (t, dirs_of es, nondirs_of es) \<or> x \<in> set (walk_subdirs t es)" by simp
  then show ?case
  proof
    assume "x = (t, dirs_of es, nondirs_of es)"
    then show ?thesis using "4.prems"(2) by (intro exI [of _ es]) simp
  next
    assume "x \<in> set (walk_subdirs t es)"
    then show ?thesis using "4.IH" "4.prems"(2) by simp
  qed
next
  case (6 t name c es)
  from "6.prems" have wc: "wf_node c" and we: "wf_entries es" by simp_all
  show ?case
  proof (cases "x \<in> set (walk_subdirs t es)")
    case True
    then show ?thesis using "6.IH"(2) we by blast
  next
    case False
    with "6.prems"(1) have d: "is_dir c \<and> \<not> is_link c"
      and r: "x \<in> set (walk (os_path_join t name) c)"
      by (auto split: if_splits)
    from "6.IH"(1) [OF d r wc] show ?thesis .
  qed
qed simp_all

lemma walk_files:
  assumes "(r, ds, fs) \<in> set (walk t c)" and "wf_node c"
  shows "distinct fs \<and> (\<forall>f\<in>set fs. valid_name f)"
proof -
  from walk_listing(1) [OF assms] obtain es where
    "wf_entries es" "distinct (map fst es)" "fs = nondirs_of es" by auto
  then show ?thesis by (auto simp: nondirs_distinct nondirs_valid)
qed






lemma opened_paths_Cons:
  "opened_paths ((r, ds, fs) # ts) = map (os_path_join r) fs @ opened_paths ts"
  by (simp add: opened_paths_def)

lemma opened_paths_mem:
  "q \<in> set (opened_paths ts) \<longleftrightarrow> (\<exists>r ds fs f. (r, ds, fs) \<in> set ts \<and> f \<in> set fs \<and> q = os_path_join r f)"
  by (fastforce simp: opened_paths_def)



section \<open>Counting effects\<close>





section \<open>Reachable directories are visited\<close>



section \<open>The output depends on the roots only\<close>

lemma walk_prefix:
  assumes "wf_node c" "r \<in> fst ` set (walk t c)" shows "prefix t r"
proof -
  have "prefix t (dir_prefix t)" by (simp add: dir_prefix_def)
  then have "prefix t (dir_prefix t @ x)" for x by (rule prefix_prefix)
  with walk_shape(1) [OF assms] show ?thesis by auto
qed

lemma opened_prefix:
  assumes "wf_node c" "q \<in> set (opened_paths (walk t c))" shows "prefix t q"
proof -
  from assms(2) obtain r ds fs f where
    f: "(r, ds, fs) \<in> set (walk t c)" "f \<in> set fs" "q = os_path_join r f"
    by (auto simp: opened_paths_mem)
  from f(1) have "r \<in> fst ` set (walk t c)" by force
  from walk_prefix [OF assms(1) this] have "prefix t r" .
  moreover have "valid_name f" using walk_files [OF f(1) assms(1)] f(2) by simp
  then have "q = dir_prefix r @ f" using f(3) by (simp add: join_valid)
  moreover have "prefix r (dir_prefix r)" by (simp add: dir_prefix_def)
  ultimately show ?thesis by (meson prefix_order.trans prefix_prefix)
qed

lemma reader_string_cong: "open_read w1 q = open_read w2 q \<Longrightarrow> reader_string w1 q = reader_string w2 q"
  by (simp add: reader_string_def)

lemma blocks_cong:
  assumes "\<And>q. q \<in> set (opened_paths ts) \<Longrightarrow> open_read w1 q = open_read w2 q"
  shows "concat (map (dir_block w1) ts) = concat (map (dir_block w2) ts)"
  using assms
proof (induction ts)
  case Nil
  then show ?case by simp
next
  case (Cons x ts)
  obtain r ds fs where x: "x = (r, ds, fs)" by (cases x)
  have "file_block w1 r f = file_block w2 r f" if "f \<in> set fs" for f
  proof -
    from that have "os_path_join r f \<in> set (opened_paths (x # ts))"
      by (simp add: x opened_paths_Cons)
    from reader_string_cong [OF Cons.prems [OF this]] show ?thesis by (simp add: file_block_def)
  qed
  then have m: "map (file_block w1 r) fs = map (file_block w2 r) fs"
    by (intro map_cong [OF refl])
  have here: "dir_block w1 x = dir_block w2 x" by (simp only: x dir_block.simps m)
  have "concat (map (dir_block w1) ts) = concat (map (dir_block w2) ts)"
  proof (rule Cons.IH)
    fix q assume "q \<in> set (opened_paths ts)"
    then have "q \<in> set (opened_paths (x # ts))" by (simp add: x opened_paths_Cons)
    then show "open_read w1 q = open_read w2 q" by (rule Cons.prems)
  qed
  with here show ?case by (simp del: dir_block.simps)
qed

lemma root_section_cong:
  assumes n: "node_at w1 d = node_at w2 d"
    and wf: "\<And>n. node_at w1 d = Some n \<Longrightarrow> wf_node n"
    and rd: "\<And>p. prefix d p \<Longrightarrow> open_read w1 p = open_read w2 p"
  shows "root_section w1 d = root_section w2 d"
proof (cases "node_at w1 d")
  case None
  with n show ?thesis by (simp add: root_section_def os_path_exists_def)
next
  case (Some c)
  then have w: "os_walk w1 d = walk d c" "os_walk w2 d = walk d c"
    using n by (simp_all add: os_walk_def)
  have "concat (map (dir_block w1) (walk d c)) = concat (map (dir_block w2) (walk d c))"
  proof (rule blocks_cong)
    fix q assume "q \<in> set (opened_paths (walk d c))"
    from opened_prefix [OF wf [OF Some] this] show "open_read w1 q = open_read w2 q" by (rule rd)
  qed
  then show ?thesis using Some n by (simp add: root_section_def os_path_exists_def w)
qed

section \<open>Lines of the output\<close>





lemma text_lines_nl: "text_lines (nl @ b) = [] # text_lines b"
  by (simp add: nl_def)












section \<open>What can be written\<close>

lemma banner_valid: "utf8_valid d \<Longrightarrow> utf8_valid (''SCANNING: '' @ d @ nl)"
proof -
  assume d: "utf8_valid d"
  have l: "utf8_valid ''SCANNING: ''" by code_simp
  show ?thesis by (rule utf8_valid_append [OF l utf8_valid_append [OF d utf8_valid_nl]])
qed


lemma dirline_valid: "utf8_valid d \<Longrightarrow> utf8_valid (''Directory: '' @ d @ nl)"
proof -
  assume d: "utf8_valid d"
  have l: "utf8_valid ''Directory: ''" by code_simp
  show ?thesis by (rule utf8_valid_append [OF l utf8_valid_append [OF d utf8_valid_nl]])
qed

lemma header_valid: "utf8_valid q \<Longrightarrow> utf8_valid (nl @ ''--- FILE: '' @ q @ '' ---'' @ nl)"
proof -
  assume q: "utf8_valid q"
  have l: "utf8_valid ''--- FILE: ''" by code_simp
  have m: "utf8_valid '' ---''" by code_simp
  show ?thesis
    by (rule utf8_valid_append [OF utf8_valid_nl utf8_valid_append [OF l
          utf8_valid_append [OF q utf8_valid_append [OF m utf8_valid_nl]]]])
qed

lemma write_Inl: "output_file_write s tr = Inl e \<Longrightarrow> e = encode_error"
  by (simp add: output_file_write_def split: if_splits)




lemma main_Inr:
  "main w = Inr tr \<Longrightarrow>
     tr = [Write (''Files Content'' @ nl), Write (''============='' @ nl @ nl)]
               @ concat (map (root_section w) directories)
               @ [Write (''End of content listing'' @ nl),
                  Print (''Files content has been saved to '' @ output_file_path)]"
  unfolding main_eq by (cases "output_open_error w"; cases "list_all (root_ok w) directories") simp_all

lemma configured_roots_valid: "\<forall>d\<in>set directories. utf8_valid d"
  unfolding directories_def by code_simp

lemma components_valid: "utf8_valid components"
  by code_simp



section \<open>Runs of the example worlds\<close>



lemma demo_main_completes: "\<exists>tr. main (demo_world (Some demo_tree) None) = Inr tr"
proof -
  have "case main (demo_world (Some demo_tree) None) of Inr tr \<Rightarrow> True | Inl e \<Rightarrow> False"
    by code_simp
  then show ?thesis by (auto split: sum.splits)
qed

lemma other_main_completes: "\<exists>tr. main other_world = Inr tr"
proof -
  have "case main other_world of Inr tr \<Rightarrow> True | Inl e \<Rightarrow> False"
    by code_simp
  then show ?thesis by (auto split: sum.splits)
qed


lemma configured_roots_plain:
  "\<forall>d\<in>set directories. d \<noteq> [] \<and> \<not> ends_with_sep d \<and> utf8_valid d"
  using configured_roots_valid by (simp add: directories_def ends_with_sep_def)

text \<open>
  Why the statement about the lines of the output asks for paths without line feed: the example
  has no file at all, its listings are as \<^verbatim>\<open>scandir\<close> gives them, \<^verbatim>\<open>/r/y\<close> is
  visited once, and the output holds the line \<^verbatim>\<open>Directory: /r/y\<close> twice, the second time as the end of the line written
  for the directory with the line feed in its path.
\<close>

lemma line_feed_name_repeats_line:
  "(case node_at line_feed_world ''/r'' of Some n \<Rightarrow> wf_node n | None \<Rightarrow> False)
   \<and> (case list_files_recursive line_feed_world ''/r'' [] of
         Inr tr \<Rightarrow> count_list (text_lines (file_text tr)) ''Directory: /r/y'' = 2
                   \<and> count_list (map fst (os_walk line_feed_world ''/r'')) ''/r/y'' = 1
                   \<and> opened_paths (os_walk line_feed_world ''/r'') = []
       | Inl e \<Rightarrow> False)"
  by code_simp

section \<open>The claims\<close>







text \<open>
  Claim C4. A root that holds the single file \<^verbatim>\<open>a.txt\<close> with content \<^verbatim>\<open>hello\<close> and no
  subdirectory: the text the walker writes for it. The root path is not empty, does not end
  with \<^verbatim>\<open>/\<close>, so that \<^verbatim>\<open>os.path.join\<close> inserts the separator, and can be encoded, as
  both configured roots are.
\<close>

theorem single_file_example:
  assumes "d \<noteq> []" and "\<not> ends_with_sep d" and "utf8_valid d"
    and "node_at w d = Some (Dir [(''a.txt'', File)])"
    and "open_read w (d @ ''/a.txt'') = Inr ''hello''"
  shows "\<exists>tr. list_files_recursive w d [] = Inr tr
           \<and> file_text tr =
               ''Directory: '' @ d @ nl @ nl @ ''--- FILE: '' @ d @ ''/a.txt ---'' @ nl
               @ ''hello'' @ nl @ nl
               @ ''================================================================================''
               @ nl @ nl"
proof -
  have j: "os_path_join d ''a.txt'' = d @ ''/a.txt''"
    using assms(1,2) by (simp add: join_plain)
  have r: "replicate 80 CHR ''='' =
      ''================================================================================''"
    by code_simp
  have ow: "os_walk w d = [(d, [], [''a.txt''])]"
    using assms(4) by (simp add: os_walk_def dirs_of_def nondirs_of_def)
  have t: "utf8_valid ''/a.txt''" "utf8_valid ''hello''" by code_simp+
  have q: "utf8_valid (d @ ''/a.txt'')" by (rule utf8_valid_append [OF assms(3) t(1)])
  have ok: "list_all (dir_ok w) (os_walk w d)"
    unfolding ow using assms(5) t(2) dirline_valid [OF assms(3)] header_valid [OF q]
    by (simp add: file_ok_def j reader_string_def)
  have "list_files_recursive w d [] = Inr (concat (map (dir_block w) (os_walk w d)))"
    using ok by (simp add: list_files_recursive_eq)
  moreover have "file_text (concat (map (dir_block w) (os_walk w d))) =
               ''Directory: '' @ d @ nl @ nl @ ''--- FILE: '' @ d @ ''/a.txt ---'' @ nl
               @ ''hello'' @ nl @ nl
               @ ''================================================================================''
               @ nl @ nl"
    using assms(5) by (simp add: ow file_block_def j reader_string_def file_text_def r)
  ultimately show ?thesis by blast
qed

theorem single_file_example_witness:
  "components \<noteq> [] \<and> \<not> ends_with_sep components \<and> utf8_valid components
   \<and> (\<exists>tr. list_files_recursive (demo_world (Some (Dir [(''a.txt'', File)])) None) components [] = Inr tr
         \<and> file_text tr =
               ''Directory: '' @ components @ nl @ nl @ ''--- FILE: '' @ components @ ''/a.txt ---'' @ nl
               @ ''hello'' @ nl @ nl
               @ ''================================================================================''
               @ nl @ nl)"
proof -
  have h1: "components \<noteq> []" by (simp add: components_def)
  have h2: "\<not> ends_with_sep components" by (simp add: components_def ends_with_sep_def)
  have h3: "node_at (demo_world (Some (Dir [(''a.txt'', File)])) None) components
      = Some (Dir [(''a.txt'', File)])"
    by (simp add: demo_world_def components_def)
  have h4: "open_read (demo_world (Some (Dir [(''a.txt'', File)])) None) (components @ ''/a.txt'')
      = Inr ''hello''"
    by (simp add: demo_world_def components_def)
  show ?thesis
    using h1 h2 components_valid single_file_example [OF h1 h2 components_valid h3 h4] by blast
qed

text \<open>
  Claim C5. When the run completes, the output file begins with the title and its underline and
  ends with the trailer line, whatever the file system holds.
\<close>

theorem output_header_and_trailer:
  assumes "main w = Inr tr"
  shows "\<exists>mid. file_text tr =
           ''Files Content'' @ nl @ ''============='' @ nl @ nl @ mid
           @ ''End of content listing'' @ nl"
  using main_Inr [OF assms] by (auto simp: file_text_def)

theorem output_header_and_trailer_witness:
  "\<exists>tr. main (demo_world (Some demo_tree) None) = Inr tr
     \<and> (\<exists>mid. file_text tr =
           ''Files Content'' @ nl @ ''============='' @ nl @ nl @ mid
           @ ''End of content listing'' @ nl)"
proof -
  obtain tr where h: "main (demo_world (Some demo_tree) None) = Inr tr"
    using demo_main_completes by blast
  show ?thesis
    using h output_header_and_trailer [OF h] by blast
qed




text \<open>
  Claim C7. Two runs that complete, in worlds that agree on what the two configured roots hold
  and on reading every path below them, have the same effects and so the same output file,
  whatever else differs between the worlds.
\<close>

theorem output_determined_by_roots:
  assumes "\<forall>d\<in>set directories. node_at w1 d = node_at w2 d"
    and "\<forall>d\<in>set directories. \<forall>n. node_at w1 d = Some n \<longrightarrow> wf_node n"
    and "\<forall>d\<in>set directories. \<forall>p. prefix d p \<longrightarrow> open_read w1 p = open_read w2 p"
    and "main w1 = Inr tr1" and "main w2 = Inr tr2"
  shows "tr1 = tr2 \<and> file_text tr1 = file_text tr2"
proof -
  have "root_section w1 d = root_section w2 d" if "d \<in> set directories" for d
    using assms(1-3) that by (intro root_section_cong) auto
  then have m: "map (root_section w1) directories = map (root_section w2) directories"
    by (intro map_cong [OF refl])
  have "tr1 = tr2" by (simp only: main_Inr [OF assms(4)] main_Inr [OF assms(5)] m)
  then show ?thesis by simp
qed

theorem output_determined_by_roots_witness:
  "open_read (demo_world (Some demo_tree) None) ''/etc/hostname'' \<noteq> open_read other_world ''/etc/hostname''
   \<and> (\<exists>tr1 tr2. main (demo_world (Some demo_tree) None) = Inr tr1 \<and> main other_world = Inr tr2
         \<and> tr1 = tr2 \<and> file_text tr1 = file_text tr2)"
proof -
  let ?w = "demo_world (Some demo_tree) None"
  have h1: "\<forall>d\<in>set directories. node_at ?w d = node_at other_world d"
    by (simp add: directories_def other_world_def)
  have h2: "\<forall>d\<in>set directories. \<forall>n. node_at ?w d = Some n \<longrightarrow> wf_node n"
    by (simp add: directories_def demo_world_def demo_tree_def valid_name_def)
  have h3: "\<forall>d\<in>set directories. \<forall>p. prefix d p \<longrightarrow> open_read ?w p = open_read other_world p"
    by (auto simp: directories_def other_world_def)
  have d: "open_read ?w ''/etc/hostname'' \<noteq> open_read other_world ''/etc/hostname''"
    by (simp add: other_world_def demo_world_def)
  obtain tr1 where h4: "main ?w = Inr tr1"
    using demo_main_completes by blast
  obtain tr2 where h5: "main other_world = Inr tr2"
    using other_main_completes by blast
  from output_determined_by_roots [OF h1 h2 h3 h4 h5] h4 h5 d show ?thesis by blast
qed



text \<open>
  Claim C9. A root that exists and is not a directory passes the existence check, and the walker
  writes nothing for it: after the banner and the separator the loop goes on with the next root.
  The root path can be encoded, as both configured roots can.
\<close>

theorem non_directory_root_silent:
  assumes "node_at w d = Some n" and "\<not> is_dir n" and "utf8_valid d"
  shows "os_path_exists w d \<and> list_files_recursive w d tr = Inr tr
       \<and> for_directory_in w (d # rest) tr =
           for_directory_in w rest
             (tr @ [Write (''SCANNING: '' @ d @ nl), Write (replicate 80 CHR ''='' @ nl @ nl)])"
proof -
  have ow: "os_walk w d = []" using assms(1,2) by (simp add: os_walk_def walk_not_dir)
  have ex: "os_path_exists w d" using assms(1) by (simp add: os_path_exists_def)
  have "root_ok w d" using ex ow banner_valid [OF assms(3)] by (simp add: root_ok_def)
  moreover have "root_section w d
      = [Write (''SCANNING: '' @ d @ nl), Write (replicate 80 CHR ''='' @ nl @ nl)]"
    using ex ow by (simp add: root_section_def)
  ultimately show ?thesis using ex ow by (simp add: for_directory_in_eq list_files_recursive_eq)
qed

theorem non_directory_root_silent_witness:
  "node_at (demo_world (Some File) None) components = Some File \<and> \<not> is_dir File
   \<and> utf8_valid components
   \<and> os_path_exists (demo_world (Some File) None) components
   \<and> list_files_recursive (demo_world (Some File) None) components [] = Inr []
   \<and> for_directory_in (demo_world (Some File) None) (components # []) [] =
           for_directory_in (demo_world (Some File) None) []
             ([] @ [Write (''SCANNING: '' @ components @ nl), Write (replicate 80 CHR ''='' @ nl @ nl)])"
proof -
  have h1: "node_at (demo_world (Some File) None) components = Some File"
    by (simp add: demo_world_def components_def)
  have h2: "\<not> is_dir File" by simp
  show ?thesis
    using h1 h2 components_valid
      non_directory_root_silent [OF h1 h2 components_valid, of "[]" "[]"] by blast
qed

text \<open>
  Claim C10. For an existing root directory with no entries the walker writes the single line
  \<^verbatim>\<open>Directory: <root>\<close> and nothing else. The root path can be encoded, as both configured
  roots can.
\<close>

theorem empty_root_directory:
  assumes "node_at w d = Some (Dir [])" and "utf8_valid d"
  shows "list_files_recursive w d tr = Inr (tr @ [Write (''Directory: '' @ d @ nl)])
       \<and> (\<exists>tr'. list_files_recursive w d [] = Inr tr' \<and> file_text tr' = ''Directory: '' @ d @ nl)"
proof -
  have ow: "os_walk w d = [(d, [], [])]"
    using assms(1) by (simp add: os_walk_def dirs_of_def nondirs_of_def)
  have ok: "list_all (dir_ok w) (os_walk w d)"
    unfolding ow using dirline_valid [OF assms(2)] by simp
  show ?thesis using ok by (simp add: list_files_recursive_eq file_text_def) (simp add: ow)
qed

theorem empty_root_directory_witness:
  "node_at (demo_world (Some (Dir [])) None) components = Some (Dir [])
   \<and> utf8_valid components
   \<and> list_files_recursive (demo_world (Some (Dir [])) None) components [] =
        Inr ([] @ [Write (''Directory: '' @ components @ nl)])
   \<and> (\<exists>tr'. list_files_recursive (demo_world (Some (Dir [])) None) components [] = Inr tr'
          \<and> file_text tr' = ''Directory: '' @ components @ nl)"
proof -
  have h: "node_at (demo_world (Some (Dir [])) None) components = Some (Dir [])"
    by (simp add: demo_world_def components_def)
  show ?thesis
    using h components_valid empty_root_directory [OF h components_valid, of "[]"] by blast
qed

end
